theory Spec2Isabelle
  imports Complex_Main "HOL-Library.Multiset" "HOL-Library.AList" "HOL-Library.List_Lexorder"
begin

section \<open>Python strings\<close>

text \<open>
  A Python \<open>str\<close> is a sequence of Unicode code points, so it is modelled as a list of
  natural numbers (not as a list of 8-bit characters): \<open>len\<close> is \<open>length\<close>, and a
  character outside ASCII is one element.  \<open>lit\<close> turns an ASCII literal of the source
  into its code points.
\<close>

type_synonym codepoint = nat

type_synonym pystr = "codepoint list"

definition lit :: "string \<Rightarrow> pystr" where
  "lit s = map of_char s"

text \<open>
  The class \<open>\d\<close> of Python's \<open>re\<close> module on \<open>str\<close> patterns is the Unicode general
  category Nd (decimal digits), not only \<open>0\<close>..\<open>9\<close>.  The table below lists the Nd
  ranges of Unicode 14.0 as pairs (first code point, number of code points); the ASCII
  digits are the first range, the Arabic-Indic digits U+0660..U+0669 the second.
\<close>

definition nd_ranges :: "(nat \<times> nat) list" where
  "nd_ranges =
    [(48, 10), (1632, 10), (1776, 10), (1984, 10), (2406, 10), (2534, 10), (2662, 10),
     (2790, 10), (2918, 10), (3046, 10), (3174, 10), (3302, 10), (3430, 10), (3558, 10),
     (3664, 10), (3792, 10), (3872, 10), (4160, 10), (4240, 10), (6112, 10), (6160, 10),
     (6470, 10), (6608, 10), (6784, 10), (6800, 10), (6992, 10), (7088, 10), (7232, 10),
     (7248, 10), (42528, 10), (43216, 10), (43264, 10), (43472, 10), (43504, 10),
     (43600, 10), (44016, 10), (65296, 10), (66720, 10), (68912, 10), (69734, 10),
     (69872, 10), (69942, 10), (70096, 10), (70384, 10), (70736, 10), (70864, 10),
     (71248, 10), (71360, 10), (71472, 10), (71904, 10), (72016, 10), (72784, 10),
     (73040, 10), (73120, 10), (92768, 10), (92864, 10), (93008, 10), (120782, 50),
     (123200, 10), (123632, 10), (125264, 10), (130032, 10)]"

definition re_digit :: "codepoint \<Rightarrow> bool" where
  "re_digit c = list_ex (\<lambda>(lo, n). lo \<le> c \<and> c < lo + n) nd_ranges"

definition ascii_digit :: "codepoint \<Rightarrow> bool" where
  "ascii_digit c = (48 \<le> c \<and> c \<le> 57)"

text \<open>\<open>str(x)\<close> for the two kinds of value the callers pass: a string or \<open>None\<close>.\<close>

definition py_str :: "pystr option \<Rightarrow> pystr" where
  "py_str v = (case v of None \<Rightarrow> lit ''None'' | Some s \<Rightarrow> s)"

text \<open>\<open>s.startswith(p)\<close>.\<close>

definition startswith :: "pystr \<Rightarrow> pystr \<Rightarrow> bool" where
  "startswith s p = (take (length p) s = p)"

text \<open>
  \<open>s.zfill(w)\<close>: pads with \<open>'0'\<close> on the left up to width \<open>w\<close>; a leading sign
  \<open>'+'\<close> or \<open>'-'\<close> stays in front of the padding.
\<close>

definition zfill :: "nat \<Rightarrow> pystr \<Rightarrow> pystr" where
  "zfill w s =
    (if w \<le> length s then s
     else (case s of
             [] \<Rightarrow> replicate w 48
           | c # r \<Rightarrow>
               if c = 43 \<or> c = 45 then c # replicate (w - length s) 48 @ r
               else replicate (w - length s) 48 @ s))"

section \<open>CallRecord._normalize_phone_number\<close>

definition normalize_phone_number :: "pystr option \<Rightarrow> pystr" where
  "normalize_phone_number number =
    (let digits_only = filter re_digit (py_str number) in
     if length digits_only = 10 then digits_only
     else if length digits_only = 11 \<and> startswith digits_only (lit ''1'')
       then drop 1 digits_only
     else if length digits_only > 10
       then drop (length digits_only - 10) digits_only
     else zfill 10 digits_only)"

section \<open>Library functions taken as parameters\<close>

text \<open>
  \<open>datetime\<close> values after \<open>.replace(tzinfo=None)\<close>: the naive fields only.
\<close>

record datetime =
  dt_year :: nat
  dt_month :: nat
  dt_day :: nat
  dt_hour :: nat
  dt_minute :: nat
  dt_second :: nat
  dt_microsecond :: nat

text \<open>
  An element of \<open>xml.etree.ElementTree\<close>: its tag, its text (\<open>None\<close> for an element
  without character data, such as \<open><a/>\<close> or \<open><a></a>\<close>) and its children in
  document order.
\<close>

datatype elem = Elem (el_tag: pystr) (el_text: "pystr option") (el_children: "elem list")

text \<open>
  What the program calls in the Python library and the environment, and the model does
  not define.  Every theorem holds for every value of these fields, except where a
  hypothesis on one of them is written out.
  \<^item> \<open>str_lower\<close>: \<open>str.lower\<close>;
  \<^item> \<open>int_of_str\<close>: \<open>int(s)\<close> on a string, \<open>None\<close> when it raises \<open>ValueError\<close>;
  \<^item> \<open>fromisoformat\<close>: \<open>datetime.fromisoformat(s).replace(tzinfo=None)\<close>, \<open>None\<close> when
    \<open>fromisoformat\<close> raises \<open>ValueError\<close>;
  \<^item> \<open>strftime\<close>: \<open>d.strftime(format)\<close>;
  \<^item> \<open>float_overflow\<close>: the integer is too large to be converted to a float, so that
    dividing it by \<open>60.0\<close> raises \<open>OverflowError\<close>;
  \<^item> \<open>basename\<close>: \<open>os.path.basename\<close>;
  \<^item> \<open>et_parse\<close>: \<open>ET.parse(path).getroot()\<close>, \<open>None\<close> when the file cannot be read or
    is not well-formed XML;
  \<^item> \<open>set_iter\<close>: the order in which a \<open>set\<close> of strings is iterated (it depends on
    the hashes of the strings and is not specified by the language).
\<close>

record pylib =
  str_lower :: "pystr \<Rightarrow> pystr"
  int_of_str :: "pystr \<Rightarrow> int option"
  fromisoformat :: "pystr \<Rightarrow> datetime option"
  strftime :: "pystr \<Rightarrow> datetime \<Rightarrow> pystr"
  float_overflow :: "int \<Rightarrow> bool"
  basename :: "pystr \<Rightarrow> pystr"
  et_parse :: "pystr \<Rightarrow> elem option"
  set_iter :: "pystr set \<Rightarrow> pystr list"

text \<open>The exceptions the modelled code can raise.\<close>

datatype exc = AttributeError | ValueError | TypeError | OverflowError | XMLParseError

section \<open>CallRecord\<close>

text \<open>
  \<open>direction\<close> and \<open>remote_number\<close> are stored as passed in; the parser passes the text
  of an element, which is \<open>None\<close> for an empty element.  Floats are modelled as reals
  (rounding is not modelled; no property below depends on it).
\<close>

record CallRecord =
  direction :: "pystr option"
  remote_number :: "pystr option"
  normalized_number :: pystr
  target_number :: pystr
  source_file :: pystr
  start_time :: datetime
  end_time :: datetime
  length_of_call :: int
  duration_minutes :: real
  date :: pystr
  time_of_day :: pystr
  date_time :: pystr
  day_of_week :: pystr

text \<open>\<open>s.replace('Z', '+00:00')\<close>.\<close>

definition replace_Z :: "pystr \<Rightarrow> pystr" where
  "replace_Z s = concat (map (\<lambda>c. if c = 90 then lit ''+00:00'' else [c]) s)"

text \<open>
  \<open>datetime.fromisoformat(t.replace('Z', '+00:00')).replace(tzinfo=None)\<close> for an
  argument \<open>t\<close> that may be \<open>None\<close> (\<open>None.replace\<close> raises \<open>AttributeError\<close>).
\<close>

definition parse_time :: "pylib \<Rightarrow> pystr option \<Rightarrow> exc + datetime" where
  "parse_time L t =
    (case t of
       None \<Rightarrow> Inl AttributeError
     | Some s \<Rightarrow> (case fromisoformat L (replace_Z s) of
                    None \<Rightarrow> Inl ValueError
                  | Some d \<Rightarrow> Inr d))"

text \<open>\<open>CallRecord.__init__\<close>, in the order of its assignments.\<close>

definition CallRecord_init ::
  "pylib \<Rightarrow> pystr option \<Rightarrow> pystr option \<Rightarrow> pystr option \<Rightarrow> pystr option \<Rightarrow> int \<Rightarrow>
     pystr \<Rightarrow> pystr \<Rightarrow> exc + CallRecord" where
  "CallRecord_init L direction' remote_number' start_time' end_time' length_of_call'
       target_number' source_file' =
    (case parse_time L start_time' of
       Inl e \<Rightarrow> Inl e
     | Inr st \<Rightarrow>
    (case parse_time L end_time' of
       Inl e \<Rightarrow> Inl e
     | Inr et \<Rightarrow>
       if float_overflow L length_of_call' then Inl OverflowError
       else Inr \<lparr>
         direction = direction',
         remote_number = remote_number',
         normalized_number = normalize_phone_number remote_number',
         target_number =
           (if target_number' \<noteq> [] then normalize_phone_number (Some target_number') else []),
         source_file = source_file',
         start_time = st,
         end_time = et,
         length_of_call = length_of_call',
         duration_minutes = real_of_int length_of_call' / 60,
         date = strftime L (lit ''%Y-%m-%d'') st,
         time_of_day = strftime L (lit ''%H:%M:%S'') st,
         date_time = strftime L (lit ''%Y-%m-%d %H:%M:%S'') st,
         day_of_week = strftime L (lit ''%A'') st \<rparr>))"

section \<open>XMLParser.parse_file\<close>

text \<open>\<open>e.iter()\<close>: the element and its descendants, in document order.\<close>

fun iter :: "elem \<Rightarrow> elem list" where
  "iter (Elem t x cs) = Elem t x cs # concat (map iter cs)"

text \<open>
  \<open>root.findall('.//tag')\<close>: every descendant of the root with that tag, in document
  order; the root itself is not among them.
\<close>

definition findall_descendants :: "pystr \<Rightarrow> elem \<Rightarrow> elem list" where
  "findall_descendants tg doc_root =
     filter (\<lambda>e. el_tag e = tg) (concat (map iter (el_children doc_root)))"

text \<open>\<open>root.find('.//tag')\<close>: the first of them, or \<open>None\<close>.\<close>

definition find_descendant :: "pystr \<Rightarrow> elem \<Rightarrow> elem option" where
  "find_descendant tg doc_root =
     (case findall_descendants tg doc_root of [] \<Rightarrow> None | e # _ \<Rightarrow> Some e)"

text \<open>\<open>e.find('tag')\<close>: the first child with that tag, or \<open>None\<close>.\<close>

definition find_child :: "pystr \<Rightarrow> elem \<Rightarrow> elem option" where
  "find_child tg e = List.find (\<lambda>c. el_tag c = tg) (el_children e)"

text \<open>
  The body of the \<open>try\<close> of the loop over the results: \<open>x.find(..).text\<close> raises
  \<open>AttributeError\<close> when the child is missing, \<open>int(None)\<close> raises \<open>TypeError\<close>, \<open>int\<close> of a
  string that is no integer raises \<open>ValueError\<close>; then the record is built.
\<close>

definition process_result :: "pylib \<Rightarrow> pystr \<Rightarrow> pystr \<Rightarrow> elem \<Rightarrow> exc + CallRecord" where
  "process_result L target_number' source_file' result =
    (case find_child (lit ''messageDirection'') result of
       None \<Rightarrow> Inl AttributeError
     | Some d \<Rightarrow>
    (case find_child (lit ''remoteNumber'') result of
       None \<Rightarrow> Inl AttributeError
     | Some rn \<Rightarrow>
    (case find_child (lit ''startTime'') result of
       None \<Rightarrow> Inl AttributeError
     | Some st \<Rightarrow>
    (case find_child (lit ''endTime'') result of
       None \<Rightarrow> Inl AttributeError
     | Some et \<Rightarrow>
    (case find_child (lit ''lengthOfCall'') result of
       None \<Rightarrow> Inl AttributeError
     | Some lc \<Rightarrow>
    (case el_text lc of
       None \<Rightarrow> Inl TypeError
     | Some s \<Rightarrow>
    (case int_of_str L s of
       None \<Rightarrow> Inl ValueError
     | Some n \<Rightarrow>
       CallRecord_init L (el_text d) (el_text rn) (el_text st) (el_text et) n
         target_number' source_file')))))))"

text \<open>
  The loop over the results: \<open>except (AttributeError, ValueError)\<close> skips the element
  and continues; any other exception leaves the loop.
\<close>

fun results_loop ::
  "pylib \<Rightarrow> pystr \<Rightarrow> pystr \<Rightarrow> elem list \<Rightarrow> CallRecord list \<Rightarrow> exc + CallRecord list" where
  "results_loop L tn sf [] records = Inr records"
| "results_loop L tn sf (result # rest) records =
    (case process_result L tn sf result of
       Inr record \<Rightarrow> results_loop L tn sf rest (records @ [record])
     | Inl e \<Rightarrow>
         if e = AttributeError \<or> e = ValueError then results_loop L tn sf rest records
         else Inl e)"

text \<open>
  \<open>parse_file\<close>: the outer \<open>except Exception\<close> turns every exception into
  \<open>Exception("Failed to parse XML file: ...")\<close>, here \<open>Failed_to_parse\<close> of the cause.
\<close>

datatype parse_error = Failed_to_parse exc

definition parse_file :: "pylib \<Rightarrow> pystr \<Rightarrow> parse_error + CallRecord list" where
  "parse_file L file_path =
    (case et_parse L file_path of
       None \<Rightarrow> Inl (Failed_to_parse XMLParseError)
     | Some doc_root \<Rightarrow>
        (let target_number' =
               (case find_descendant (lit ''targetValue'') doc_root of
                  None \<Rightarrow> []
                | Some tv \<Rightarrow> (case el_text tv of
                               None \<Rightarrow> []
                             | Some t \<Rightarrow> if t \<noteq> [] then t else []));
             results = findall_descendants (lit ''results'') doc_root
         in case results_loop L target_number' (basename L file_path) results [] of
              Inl e \<Rightarrow> Inl (Failed_to_parse e)
            | Inr records \<Rightarrow> Inr records))"

section \<open>Dictionaries, sorting, max and min\<close>

text \<open>
  A \<open>dict\<close> keeps its keys in the order of their first insertion, and the program
  depends on that order, so it is an association list: \<open>d.get(k, default)\<close> is
  \<open>dict_get\<close>, and \<open>d[k] = v\<close> is \<open>dict_set\<close>, which replaces the value of a key in
  place and puts a new key at the end.
\<close>

definition dict_get :: "('k \<times> 'v) list \<Rightarrow> 'k \<Rightarrow> 'v \<Rightarrow> 'v" where
  "dict_get d k dflt = (case map_of d k of None \<Rightarrow> dflt | Some v \<Rightarrow> v)"

definition dict_set :: "('k \<times> 'v) list \<Rightarrow> 'k \<Rightarrow> 'v \<Rightarrow> ('k \<times> 'v) list" where
  "dict_set d k v = AList.update k v d"

text \<open>
  \<open>sorted(xs, key=key, reverse=True)\<close> and \<open>xs.sort(key=key, reverse=True)\<close>: CPython
  reverses the list, sorts it with its stable sort in ascending order of the keys, and
  reverses the result.
\<close>

definition sorted_reverse :: "('a \<Rightarrow> int) \<Rightarrow> 'a list \<Rightarrow> 'a list" where
  "sorted_reverse key xs = rev (sort_key key (rev xs))"

text \<open>
  \<open>max(xs, key=key)\<close> keeps the first element whose key is the greatest: a later element
  replaces the current one only when its key is strictly greater.  \<open>max\<close> of an empty
  sequence raises \<open>ValueError\<close>; the program calls it on a non-empty list only, and the
  model gives \<open>None\<close> there.  \<open>min(xs, key=key, default=None)\<close> is the same with
  strictly smaller keys, and returns \<open>None\<close> for an empty sequence.
\<close>

definition py_max :: "('a \<Rightarrow> int) \<Rightarrow> 'a list \<Rightarrow> 'a option" where
  "py_max key xs =
    (case xs of
       [] \<Rightarrow> None
     | x # r \<Rightarrow> Some (foldl (\<lambda>m y. if key m < key y then y else m) x r))"

definition py_min_default :: "('a \<Rightarrow> int) \<Rightarrow> 'a list \<Rightarrow> 'a option" where
  "py_min_default key xs =
    (case xs of
       [] \<Rightarrow> None
     | x # r \<Rightarrow> Some (foldl (\<lambda>m y. if key y < key m then y else m) x r))"

section \<open>Analytics\<close>

record common_contact =
  cc_number :: pystr
  cc_target_numbers :: "pystr list"
  cc_count :: int

text \<open>
  The attributes of an \<open>Analytics\<close> object.  \<open>common_contacts\<close> is \<open>None\<close> when the
  attribute was never assigned (reading it raises \<open>AttributeError\<close>).
\<close>

record Analytics =
  records :: "CallRecord list"
  total_calls :: int
  incoming_calls :: int
  outgoing_calls :: int
  total_duration_minutes :: real
  average_call_duration :: real
  unique_numbers :: int
  most_frequent_numbers :: "(pystr \<times> int) list"
  calls_by_day :: "(pystr \<times> int) list"
  calls_by_hour :: "(nat \<times> int) list"
  longest_call :: "CallRecord option"
  shortest_call :: "CallRecord option"
  target_numbers :: "pystr set"
  common_contacts :: "common_contact list option"
  files_processed :: "pystr set"

text \<open>
  \<open>sum(1 for r in self.records if r.direction.lower() == 'incoming')\<close>: \<open>None.lower()\<close>
  raises \<open>AttributeError\<close>.
\<close>

fun count_incoming :: "pylib \<Rightarrow> CallRecord list \<Rightarrow> exc + int" where
  "count_incoming L [] = Inr 0"
| "count_incoming L (r # rs) =
    (case direction r of
       None \<Rightarrow> Inl AttributeError
     | Some d \<Rightarrow>
        (case count_incoming L rs of
           Inl e \<Rightarrow> Inl e
         | Inr n \<Rightarrow> Inr ((if str_lower L d = lit ''incoming'' then 1 else 0) + n)))"

text \<open>\<open>d[k] = d.get(k, 0) + 1\<close>, the step of the three counting loops.\<close>

definition dict_incr :: "('k \<times> int) list \<Rightarrow> 'k \<Rightarrow> ('k \<times> int) list" where
  "dict_incr d k = dict_set d k (dict_get d k 0 + 1)"

text \<open>The tally \<open>number_counts\<close> of the records by normalized number.\<close>

definition number_counts :: "CallRecord list \<Rightarrow> (pystr \<times> int) list" where
  "number_counts rs = foldl (\<lambda>d record. dict_incr d (normalized_number record)) [] rs"

definition count_by_day :: "CallRecord list \<Rightarrow> (pystr \<times> int) list" where
  "count_by_day rs = foldl (\<lambda>d record. dict_incr d (date record)) [] rs"

definition count_by_hour :: "CallRecord list \<Rightarrow> (nat \<times> int) list" where
  "count_by_hour rs = foldl (\<lambda>d record. dict_incr d (dt_hour (start_time record))) [] rs"

text \<open>
  \<open>_find_common_contacts\<close>.  \<open>target_groups\<close> maps each non-empty target number, in
  the order of its first record, to the set of the normalized numbers of its records.
\<close>

definition group_step ::
  "(pystr \<times> pystr set) list \<Rightarrow> CallRecord \<Rightarrow> (pystr \<times> pystr set) list" where
  "group_step d record =
    (if target_number record \<noteq> [] then
       (let d1 = (if map_of d (target_number record) = None
                  then dict_set d (target_number record) {} else d)
        in dict_set d1 (target_number record)
             (insert (normalized_number record) (dict_get d1 (target_number record) {})))
     else d)"

definition target_groups :: "CallRecord list \<Rightarrow> (pystr \<times> pystr set) list" where
  "target_groups rs = foldl group_step [] rs"

text \<open>
  The result is the value of the attribute \<open>common_contacts\<close> afterwards: it is
  assigned only when there is more than one target group.
\<close>

definition find_common_contacts :: "pylib \<Rightarrow> CallRecord list \<Rightarrow> common_contact list option" where
  "find_common_contacts L rs =
    (let tg = target_groups rs in
     if length tg > 1 then
       (let all_numbers = foldl (\<lambda>s numbers. s \<union> numbers) {} (map snd tg);
            found =
              concat (map (\<lambda>number.
                  (let target_numbers_with_contact =
                         map fst (filter (\<lambda>(target, numbers). number \<in> numbers) tg)
                   in if length target_numbers_with_contact > 1
                      then [\<lparr> cc_number = number,
                               cc_target_numbers = target_numbers_with_contact,
                               cc_count = int (length target_numbers_with_contact) \<rparr>]
                      else []))
                (set_iter L all_numbers))
        in Some (sorted_reverse cc_count found))
     else None)"

text \<open>\<open>Analytics.__init__\<close>, that is \<open>_calculate_analytics\<close> on a new object.\<close>

definition calculate_analytics :: "pylib \<Rightarrow> CallRecord list \<Rightarrow> exc + Analytics" where
  "calculate_analytics L rs =
    (if rs = [] then
       Inr \<lparr> records = rs,
             total_calls = 0,
             incoming_calls = 0,
             outgoing_calls = 0,
             total_duration_minutes = 0,
             average_call_duration = 0,
             unique_numbers = 0,
             most_frequent_numbers = [],
             calls_by_day = [],
             calls_by_hour = [],
             longest_call = None,
             shortest_call = None,
             target_numbers = {},
             common_contacts = Some [],
             files_processed = {} \<rparr>
     else
       (case count_incoming L rs of
          Inl e \<Rightarrow> Inl e
        | Inr incoming \<Rightarrow>
           Inr \<lparr> records = rs,
                 total_calls = int (length rs),
                 incoming_calls = incoming,
                 outgoing_calls = int (length rs) - incoming,
                 total_duration_minutes = sum_list (map duration_minutes rs),
                 average_call_duration =
                   (if int (length rs) > 0
                    then sum_list (map duration_minutes rs) / real (length rs) else 0),
                 unique_numbers = int (card (set (map normalized_number rs))),
                 most_frequent_numbers = take 10 (sorted_reverse snd (number_counts rs)),
                 calls_by_day = count_by_day rs,
                 calls_by_hour = count_by_hour rs,
                 longest_call = py_max length_of_call rs,
                 shortest_call =
                   py_min_default length_of_call (filter (\<lambda>r. length_of_call r > 0) rs),
                 target_numbers = set (filter (\<lambda>t. t \<noteq> []) (map target_number rs)),
                 common_contacts = find_common_contacts L rs,
                 files_processed = set (filter (\<lambda>f. f \<noteq> []) (map source_file rs)) \<rparr>))"

section \<open>EsubpoenaTollsTool._process_files_thread\<close>

text \<open>
  What the thread hands to the user interface: \<open>_on_processing_finished\<close> with the
  records, the analytics and the processed files, or \<open>_on_processing_error\<close> with a
  message, which is a literal of the source or \<open>str(e)\<close> of a caught exception.
\<close>

datatype message = Text pystr | Str_of exc

datatype signal =
    On_processing_finished "CallRecord list" Analytics "pystr list"
  | On_processing_error message

fun files_loop ::
  "pylib \<Rightarrow> pystr list \<Rightarrow> CallRecord list \<Rightarrow> pystr list \<Rightarrow> CallRecord list \<times> pystr list" where
  "files_loop L [] all_records processed_files = (all_records, processed_files)"
| "files_loop L (file_path # rest) all_records processed_files =
    (case parse_file L file_path of
       Inr recs \<Rightarrow> files_loop L rest (all_records @ recs) (processed_files @ [file_path])
     | Inl e \<Rightarrow> files_loop L rest all_records processed_files)"

definition process_files_thread :: "pylib \<Rightarrow> pystr list \<Rightarrow> signal" where
  "process_files_thread L file_paths =
    (case files_loop L file_paths [] [] of
       (all_records, processed_files) \<Rightarrow>
         if all_records \<noteq> [] then
           (case calculate_analytics L all_records of
              Inr analytics \<Rightarrow> On_processing_finished all_records analytics processed_files
            | Inl e \<Rightarrow> On_processing_error (Str_of e))
         else On_processing_error (Text (lit ''No valid records found in any files'')))"

section \<open>ExcelExporter.export_data: the pass over the cells before saving\<close>

text \<open>
  The four export functions write \<open>None\<close>, strings, integers and floats into cells.  A
  worksheet maps (row, column) to the value of the cell, where it has one; a workbook
  is the list of its worksheets.
\<close>

datatype cell_value = VNone | VInt int | VFloat real | VStr pystr

type_synonym worksheet = "nat \<times> nat \<Rightarrow> cell_value option"

type_synonym workbook = "worksheet list"

text \<open>What the loop does to the value of one cell.\<close>

definition clean_cell :: "cell_value \<Rightarrow> cell_value" where
  "clean_cell v =
    (case v of
       VNone \<Rightarrow> VNone
     | VInt i \<Rightarrow> VInt i
     | VFloat f \<Rightarrow> VFloat f
     | VStr s \<Rightarrow> if startswith s (lit ''='') then VStr (lit [CHR 0x27] @ s) else VStr s)"

text \<open>
  \<open>export_data\<close> from the point where the four export functions have filled the
  worksheets: the argument is the workbook at that point, the function is the loop over
  the worksheets, their rows and their cells, and the result is the workbook that
  \<open>wb.save\<close> writes.
\<close>

definition export_data :: "workbook \<Rightarrow> workbook" where
  "export_data wb = map (\<lambda>ws. (\<lambda>rc. map_option clean_cell (ws rc))) wb"

section \<open>Vocabulary of the properties\<close>

text \<open>
  A record counts as incoming when its direction is a string whose lower-case form is
  \<open>incoming\<close>: the test of the generator in \<open>_calculate_analytics\<close>.
\<close>

definition is_incoming :: "pylib \<Rightarrow> CallRecord \<Rightarrow> bool" where
  "is_incoming L r =
    (case direction r of None \<Rightarrow> False | Some d \<Rightarrow> str_lower L d = lit ''incoming'')"

text \<open>The distinct elements of a list, in the order of their first occurrence.\<close>

fun first_seen :: "'a list \<Rightarrow> 'a list" where
  "first_seen [] = []"
| "first_seen (x # xs) = x # filter (\<lambda>y. y \<noteq> x) (first_seen xs)"

text \<open>
  The non-empty target numbers of the records, in record order, and the set of
  normalized numbers dialed under a target.
\<close>

definition targets_of :: "CallRecord list \<Rightarrow> pystr list" where
  "targets_of rs = filter (\<lambda>t. t \<noteq> []) (map target_number rs)"

definition dialed :: "CallRecord list \<Rightarrow> pystr \<Rightarrow> pystr set" where
  "dialed rs t = normalized_number ` {r \<in> set rs. target_number r = t}"

text \<open>
  The only assumption on the iteration order of a set: every element of a finite set
  is visited exactly once.
\<close>

definition set_iter_ok :: "pylib \<Rightarrow> bool" where
  "set_iter_ok L = (\<forall>S. finite S \<longrightarrow> set (set_iter L S) = S \<and> distinct (set_iter L S))"

text \<open>The entry of the common-contact list for a number.\<close>

definition contact_of :: "CallRecord list \<Rightarrow> pystr \<Rightarrow> common_contact" where
  "contact_of rs n =
    \<lparr> cc_number = n,
      cc_target_numbers = filter (\<lambda>t. n \<in> dialed rs t) (first_seen (targets_of rs)),
      cc_count = int (length (filter (\<lambda>t. n \<in> dialed rs t) (first_seen (targets_of rs)))) \<rparr>"

section \<open>Example inputs\<close>

text \<open>
  An instance of the library parameters for the examples: ASCII lower-casing, decimal
  ASCII integers, one timestamp, files looked up in a table, and sets iterated in
  lexicographic order.
\<close>

definition example_time :: datetime where
  "example_time =
    \<lparr> dt_year = 2024, dt_month = 1, dt_day = 15, dt_hour = 10, dt_minute = 30,
      dt_second = 0, dt_microsecond = 0 \<rparr>"

definition example_lib :: "(pystr \<times> elem) list \<Rightarrow> pylib" where
  "example_lib files =
    \<lparr> str_lower = map (\<lambda>c. if 65 \<le> c \<and> c \<le> 90 then c + 32 else c),
      int_of_str =
        (\<lambda>s. if s \<noteq> [] \<and> list_all ascii_digit s
             then Some (foldl (\<lambda>a c. 10 * a + int (c - 48)) 0 s) else None),
      fromisoformat =
        (\<lambda>s. if s = lit ''2024-01-15T10:30:00+00:00'' then Some example_time else None),
      strftime = (\<lambda>fmt d. fmt),
      float_overflow = (\<lambda>n. 2 ^ 1024 \<le> \<bar>n\<bar>),
      basename = (\<lambda>path. path),
      et_parse = map_of files,
      set_iter = sorted_list_of_set \<rparr>"

text \<open>A record of the example timestamp, as \<open>CallRecord.__init__\<close> builds it.\<close>

definition example_record :: "string \<Rightarrow> string \<Rightarrow> int \<Rightarrow> string \<Rightarrow> CallRecord" where
  "example_record dir number secs target =
    \<lparr> direction = Some (lit dir),
      remote_number = Some (lit number),
      normalized_number = normalize_phone_number (Some (lit number)),
      target_number =
        (if lit target \<noteq> [] then normalize_phone_number (Some (lit target)) else []),
      source_file = lit ''a.xml'',
      start_time = example_time,
      end_time = example_time,
      length_of_call = secs,
      duration_minutes = real_of_int secs / 60,
      date = lit ''%Y-%m-%d'',
      time_of_day = lit ''%H:%M:%S'',
      date_time = lit ''%Y-%m-%d %H:%M:%S'',
      day_of_week = lit ''%A'' \<rparr>"

text \<open>Record lists for the examples.\<close>

definition two_calls :: "CallRecord list" where
  "two_calls =
    [example_record ''incoming'' ''5551234567'' 0 [],
     example_record ''outgoing'' ''5559876543'' 45 []]"


definition five_calls :: "CallRecord list" where
  "five_calls =
    [example_record ''incoming'' ''5551111111'' 10 [],
     example_record ''outgoing'' ''5551111111'' 20 [],
     example_record ''incoming'' ''5552222222'' 30 [],
     example_record ''outgoing'' ''5552222222'' 40 [],
     example_record ''incoming'' ''5553333333'' 50 []]"

text \<open>
  Records for the common-contact examples: target \<open>1111111111\<close> dialing two numbers and
  target \<open>2222222222\<close> dialing two numbers, with one number in common, and with both in
  common.
\<close>

definition contact_calls :: "CallRecord list" where
  "contact_calls =
    [example_record ''outgoing'' ''5550000001'' 10 ''1111111111'',
     example_record ''outgoing'' ''5550000002'' 20 ''1111111111'',
     example_record ''outgoing'' ''5550000002'' 30 ''2222222222'',
     example_record ''outgoing'' ''5550000003'' 40 ''2222222222'']"

definition tied_calls :: "CallRecord list" where
  "tied_calls =
    [example_record ''outgoing'' ''5550000001'' 10 ''1111111111'',
     example_record ''outgoing'' ''5550000002'' 20 ''1111111111'',
     example_record ''outgoing'' ''5550000001'' 30 ''2222222222'',
     example_record ''outgoing'' ''5550000002'' 40 ''2222222222'']"

text \<open>
  Five files for the examples.  \<open>a.xml\<close> and \<open>c.xml\<close> hold one complete result each;
  in \<open>d.xml\<close> the first of two results has an empty \<open>lengthOfCall\<close> element; in
  \<open>e.xml\<close> the only result has an empty \<open>messageDirection\<close> element; in \<open>f.xml\<close>
  the first result has no \<open>endTime\<close>, the second has the call length \<open>abc\<close> and
  the third is complete.  Any other path, such as \<open>b.xml\<close>, is a file that cannot be
  parsed.
\<close>

definition leaf :: "string \<Rightarrow> string \<Rightarrow> elem" where
  "leaf tg s = Elem (lit tg) (Some (lit s)) []"

definition example_result :: "string \<Rightarrow> string \<Rightarrow> elem \<Rightarrow> elem" where
  "example_result dir number len =
    Elem (lit ''results'') None
      [leaf ''messageDirection'' dir, leaf ''remoteNumber'' number,
       leaf ''startTime'' ''2024-01-15T10:30:00Z'', leaf ''endTime'' ''2024-01-15T10:30:00Z'',
       len]"

definition example_files :: "(pystr \<times> elem) list" where
  "example_files =
    [(lit ''a.xml'',
      Elem (lit ''response'') None
        [example_result ''incoming'' ''5551111111'' (leaf ''lengthOfCall'' ''10'')]),
     (lit ''c.xml'',
      Elem (lit ''response'') None
        [example_result ''outgoing'' ''5552222222'' (leaf ''lengthOfCall'' ''20'')]),
     (lit ''d.xml'',
      Elem (lit ''response'') None
        [example_result ''incoming'' ''5551111111'' (Elem (lit ''lengthOfCall'') None []),
         example_result ''outgoing'' ''5552222222'' (leaf ''lengthOfCall'' ''20'')]),
     (lit ''e.xml'',
      Elem (lit ''response'') None
        [Elem (lit ''results'') None
          [Elem (lit ''messageDirection'') None [], leaf ''remoteNumber'' ''5551111111'',
           leaf ''startTime'' ''2024-01-15T10:30:00Z'',
           leaf ''endTime'' ''2024-01-15T10:30:00Z'', leaf ''lengthOfCall'' ''10'']]),
     (lit ''f.xml'',
      Elem (lit ''response'') None
        [Elem (lit ''results'') None
          [leaf ''messageDirection'' ''incoming'', leaf ''remoteNumber'' ''5551111111'',
           leaf ''startTime'' ''2024-01-15T10:30:00Z'', leaf ''lengthOfCall'' ''10''],
         example_result ''incoming'' ''5551111111'' (leaf ''lengthOfCall'' ''abc''),
         example_result ''outgoing'' ''5552222222'' (leaf ''lengthOfCall'' ''20'')])]"

text \<open>A worksheet for the example of the pass over the cells.\<close>

definition example_sheet :: worksheet where
  "example_sheet =
    [(1, 1) \<mapsto> VStr (lit ''=== CALLS BY DAY ===''), (2, 1) \<mapsto> VStr (lit ''Total Calls''),
     (2, 2) \<mapsto> VInt 5, (3, 2) \<mapsto> VFloat 0.75, (4, 1) \<mapsto> VNone]"

section \<open>Properties of the normalizer\<close>

lemma ascii_digit_re_digit: "ascii_digit c \<Longrightarrow> re_digit c"
  by (simp add: ascii_digit_def re_digit_def nd_ranges_def)

lemma re_digit_not_sign: "re_digit c \<Longrightarrow> c \<noteq> 43 \<and> c \<noteq> 45"
  by (auto simp: re_digit_def nd_ranges_def)

lemma ascii_digit_not_sign: "ascii_digit c \<Longrightarrow> c \<noteq> 43 \<and> c \<noteq> 45"
  by (simp add: ascii_digit_def)

lemma zfill_digits:
  assumes "list_all P s" and "P 48" and "\<And>c. P c \<Longrightarrow> c \<noteq> 43 \<and> c \<noteq> 45"
  shows "length (zfill 10 s) = max 10 (length s) \<and> list_all P (zfill 10 s)"
  using assms by (cases s) (auto simp: zfill_def list_all_iff)

lemma lit_simps: "lit [] = []" "lit (c # cs) = of_char c # lit cs"
  by (simp_all add: lit_def)

lemma replicate_numeral_unfold: "replicate (numeral k) x = x # replicate (pred_numeral k) x"
  by (simp add: numeral_eq_Suc)

lemmas normalize_eval =
  normalize_phone_number_def py_str_def lit_simps re_digit_def nd_ranges_def startswith_def
  zfill_def replicate_numeral_unfold

lemma normalize_shape:
  assumes "list_all P (filter re_digit (py_str v))" and "P 48"
    and "\<And>c. P c \<Longrightarrow> c \<noteq> 43 \<and> c \<noteq> 45"
  shows "length (normalize_phone_number v) = 10 \<and> list_all P (normalize_phone_number v)"
proof -
  define ds where "ds = filter re_digit (py_str v)"
  have d: "list_all P ds"
    using assms(1) by (simp add: ds_def)
  from zfill_digits[OF d assms(2,3)]
  have zf: "length (zfill 10 ds) = max 10 (length ds)" "list_all P (zfill 10 ds)"
    by auto
  have dr: "list_all P (drop n ds)" for n
    using d by (auto simp: list_all_iff dest: in_set_dropD)
  show ?thesis
    unfolding normalize_phone_number_def Let_def ds_def[symmetric]
    using d zf dr by auto
qed

lemma normalize_length: "length (normalize_phone_number v) = 10"
  and normalize_re_digit: "list_all re_digit (normalize_phone_number v)"
  using normalize_shape[of re_digit v] re_digit_not_sign
  by (simp_all add: list_all_iff re_digit_def nd_ranges_def)

lemma CallRecord_init_normalized:
  "CallRecord_init L d rn st et n tn sf = Inr r \<Longrightarrow>
     normalized_number r = normalize_phone_number rn"
  by (auto simp: CallRecord_init_def split: sum.splits if_splits)

text \<open>
  C1, as the code has it.  The normalizer is total, and its result has exactly 10
  characters, each in the class \<open>\d\<close> of Python (a Unicode decimal digit, which the
  padding \<open>0\<close> is too); when every decimal digit of the input is an ASCII digit, all 10
  are ASCII digits.  So the \<open>normalized_number\<close> of every record that
  \<open>CallRecord.__init__\<close> builds has exactly 10 such digits.
\<close>

theorem normalize_phone_number_ten_digits:
  "length (normalize_phone_number v) = 10 \<and>
   list_all re_digit (normalize_phone_number v) \<and>
   (list_all (\<lambda>c. re_digit c \<longrightarrow> ascii_digit c) (py_str v) \<longrightarrow>
      list_all ascii_digit (normalize_phone_number v)) \<and>
   (CallRecord_init L d rn st et n tn sf = Inr r \<longrightarrow>
      length (normalized_number r) = 10 \<and> list_all re_digit (normalized_number r))"
proof -
  have "list_all ascii_digit (normalize_phone_number v)"
    if "list_all (\<lambda>c. re_digit c \<longrightarrow> ascii_digit c) (py_str v)"
  proof -
    from that have "list_all ascii_digit (filter re_digit (py_str v))"
      by (simp add: list_all_iff)
    from normalize_shape[OF this _ ascii_digit_not_sign] show ?thesis
      by (simp add: ascii_digit_def)
  qed
  then show ?thesis
    by (auto simp: normalize_length normalize_re_digit dest!: CallRecord_init_normalized)
qed

theorem normalize_phone_number_ten_digits_witness:
  "list_all (\<lambda>c. re_digit c \<longrightarrow> ascii_digit c) (py_str (Some (lit ''+1 (555) 123-4567''))) \<and>
   list_all ascii_digit (normalize_phone_number (Some (lit ''+1 (555) 123-4567''))) \<and>
   CallRecord_init (example_lib []) (Some (lit ''incoming'')) (Some (lit ''+1 (555) 123-4567''))
       (Some (lit ''2024-01-15T10:30:00Z'')) (Some (lit ''2024-01-15T10:30:00Z'')) 45
       (lit []) (lit ''a.xml'')
     = Inr (example_record ''incoming'' ''+1 (555) 123-4567'' 45 []) \<and>
   length (normalized_number (example_record ''incoming'' ''+1 (555) 123-4567'' 45 [])) = 10"
  using normalize_phone_number_ten_digits[of "Some (lit ''+1 (555) 123-4567'')"
      "example_lib []" "Some (lit ''incoming'')" "Some (lit ''+1 (555) 123-4567'')"
      "Some (lit ''2024-01-15T10:30:00Z'')" "Some (lit ''2024-01-15T10:30:00Z'')" 45
      "lit []" "lit ''a.xml''" "example_record ''incoming'' ''+1 (555) 123-4567'' 45 []"]
  by (simp add: py_str_def lit_simps ascii_digit_def re_digit_def nd_ranges_def
      CallRecord_init_def parse_time_def replace_Z_def example_lib_def example_record_def)

text \<open>
  C1 as stated fails: the Arabic-Indic digit three (U+0663) is in \<open>\d\<close>, so it is kept,
  and the result is nine \<open>0\<close> and that character, which is not an ASCII digit.
\<close>

theorem normalize_phone_number_non_ascii:
  "\<not> list_all ascii_digit (normalize_phone_number (Some [1635]))"
  by (simp add: normalize_eval ascii_digit_def)

text \<open>
  C5, as the code has it: the four other equations of the claim, and for the 14 digits
  \<open>12345551234567\<close> the last 10 digits, \<open>5551234567\<close>.
\<close>

theorem normalize_phone_number_examples:
  "normalize_phone_number (Some (lit ''5551234567'')) = lit ''5551234567'' \<and>
   normalize_phone_number (Some (lit ''15551234567'')) = lit ''5551234567'' \<and>
   normalize_phone_number (Some (lit ''+1 (555) 123-4567'')) = lit ''5551234567'' \<and>
   normalize_phone_number (Some (lit ''12345551234567'')) = lit ''5551234567'' \<and>
   normalize_phone_number (Some (lit ''42'')) = lit ''0000000042''"
  by (simp add: normalize_eval)

text \<open>C5 as stated fails at its fourth equation: the result is not \<open>1234567\<close>.\<close>

theorem normalize_phone_number_not_1234567:
  "normalize_phone_number (Some (lit ''12345551234567'')) \<noteq> lit ''1234567''"
  by (simp add: normalize_eval)

section \<open>Properties of the analytics\<close>

subsection \<open>Counts\<close>

lemma count_incoming_strings:
  "\<forall>r\<in>set rs. direction r \<noteq> None \<Longrightarrow>
     count_incoming L rs = Inr (int (length (filter (is_incoming L) rs)))"
  by (induction rs) (auto simp: is_incoming_def)

lemma count_incoming_None:
  "\<exists>r\<in>set rs. direction r = None \<Longrightarrow> count_incoming L rs = Inl AttributeError"
proof (induction rs)
  case Nil
  then show ?case by simp
next
  case (Cons a rs)
  show ?case
  proof (cases "direction a")
    case None
    then show ?thesis by simp
  next
    case (Some d)
    with Cons.prems have "\<exists>r\<in>set rs. direction r = None" by auto
    with Cons.IH Some show ?thesis by simp
  qed
qed

lemma calculate_analytics_total:
  "\<forall>r\<in>set rs. direction r \<noteq> None \<Longrightarrow> \<exists>a. calculate_analytics L rs = Inr a"
  by (simp add: calculate_analytics_def count_incoming_strings)

lemma calculate_analytics_None:
  "\<exists>r\<in>set rs. direction r = None \<Longrightarrow> calculate_analytics L rs = Inl AttributeError"
  by (auto simp: calculate_analytics_def count_incoming_None)

text \<open>
  C10.  On an empty record list the analytics computation returns normally, and every
  count and duration is zero, every list, histogram and set is empty (the common
  contacts are the empty list), and the longest and the shortest call are \<open>None\<close>.
\<close>

theorem calculate_analytics_empty:
  "calculate_analytics L [] =
    Inr \<lparr> records = [], total_calls = 0, incoming_calls = 0, outgoing_calls = 0,
          total_duration_minutes = 0, average_call_duration = 0, unique_numbers = 0,
          most_frequent_numbers = [], calls_by_day = [], calls_by_hour = [],
          longest_call = None, shortest_call = None, target_numbers = {},
          common_contacts = Some [], files_processed = {} \<rparr>"
  by (simp add: calculate_analytics_def)



subsection \<open>Longest and shortest call\<close>

lemma fold_min_split:
  fixes key :: "'a \<Rightarrow> int"
  defines "f \<equiv> (\<lambda>m y. if key y < key m then y else m)"
  shows "\<exists>pre post. x # r = pre @ foldl f x r # post \<and>
           (\<forall>y\<in>set pre. key (foldl f x r) < key y) \<and>
           (\<forall>y\<in>set post. key (foldl f x r) \<le> key y)"
proof (induction r rule: rev_induct)
  case Nil
  have "[x] = [] @ x # []" by simp
  then show ?case by (metis empty_iff foldl_Nil list.set(1))
next
  case (snoc y r)
  let ?m = "foldl f x r"
  from snoc obtain pre post where s: "x # r = pre @ ?m # post"
    "\<forall>z\<in>set pre. key ?m < key z" "\<forall>z\<in>set post. key ?m \<le> key z" by blast
  show ?case
  proof (cases "key y < key ?m")
    case True
    then have res: "foldl f x (r @ [y]) = y" by (simp add: f_def)
    have all: "\<forall>z\<in>set (x # r). key ?m \<le> key z"
      unfolding s(1) using s(2,3) by auto
    have "x # r @ [y] = (x # r) @ y # []" by simp
    moreover have "\<forall>z\<in>set (x # r). key y < key z" using all True by fastforce
    ultimately show ?thesis unfolding res by (metis empty_iff list.set(1))
  next
    case False
    then have res: "foldl f x (r @ [y]) = ?m" by (simp add: f_def)
    have "x # r @ [y] = pre @ ?m # (post @ [y])" using s(1) by simp
    moreover have "\<forall>z\<in>set (post @ [y]). key ?m \<le> key z" using s(3) False by auto
    ultimately show ?thesis unfolding res using s(2) by blast
  qed
qed

lemma fold_max_split:
  fixes key :: "'a \<Rightarrow> int"
  defines "f \<equiv> (\<lambda>m y. if key m < key y then y else m)"
  shows "\<exists>pre post. x # r = pre @ foldl f x r # post \<and>
           (\<forall>y\<in>set pre. key y < key (foldl f x r)) \<and>
           (\<forall>y\<in>set post. key y \<le> key (foldl f x r))"
proof (induction r rule: rev_induct)
  case Nil
  have "[x] = [] @ x # []" by simp
  then show ?case by (metis empty_iff foldl_Nil list.set(1))
next
  case (snoc y r)
  let ?m = "foldl f x r"
  from snoc obtain pre post where s: "x # r = pre @ ?m # post"
    "\<forall>z\<in>set pre. key z < key ?m" "\<forall>z\<in>set post. key z \<le> key ?m" by blast
  show ?case
  proof (cases "key ?m < key y")
    case True
    then have res: "foldl f x (r @ [y]) = y" by (simp add: f_def)
    have all: "\<forall>z\<in>set (x # r). key z \<le> key ?m"
      unfolding s(1) using s(2,3) by auto
    have "x # r @ [y] = (x # r) @ y # []" by simp
    moreover have "\<forall>z\<in>set (x # r). key z < key y" using all True by fastforce
    ultimately show ?thesis unfolding res by (metis empty_iff list.set(1))
  next
    case False
    then have res: "foldl f x (r @ [y]) = ?m" by (simp add: f_def)
    have "x # r @ [y] = pre @ ?m # (post @ [y])" using s(1) by simp
    moreover have "\<forall>z\<in>set (post @ [y]). key z \<le> key ?m" using s(3) False by auto
    ultimately show ?thesis unfolding res using s(2) by blast
  qed
qed

lemma py_min_default_None: "py_min_default key xs = None \<longleftrightarrow> xs = []"
  by (simp add: py_min_default_def split: list.splits)

lemma py_min_default_Some:
  "py_min_default key xs = Some m \<Longrightarrow>
     \<exists>pre post. xs = pre @ m # post \<and> (\<forall>y\<in>set pre. key m < key y) \<and>
        (\<forall>y\<in>set post. key m \<le> key y)"
  using fold_min_split[of _ _ key]
  by (auto simp: py_min_default_def split: list.splits)

lemma py_max_Some:
  "xs \<noteq> [] \<Longrightarrow>
     \<exists>m pre post. py_max key xs = Some m \<and> xs = pre @ m # post \<and>
        (\<forall>y\<in>set pre. key y < key m) \<and> (\<forall>y\<in>set post. key y \<le> key m)"
  using fold_max_split[of _ _ key]
  by (auto simp: py_max_def split: list.splits)

lemma filter_eq_appendD:
  "filter P xs = ys @ zs \<Longrightarrow> \<exists>us vs. xs = us @ vs \<and> filter P us = ys \<and> filter P vs = zs"
proof (induction xs arbitrary: ys)
  case Nil
  then show ?case by simp
next
  case (Cons x xs)
  show ?case
  proof (cases "P x \<and> ys = []")
    case True
    have "x # xs = [] @ (x # xs) \<and> filter P [] = ys \<and> filter P (x # xs) = zs"
      using True Cons.prems by simp
    then show ?thesis by blast
  next
    case False
    then have "\<exists>ys'. filter P xs = ys' @ zs \<and> filter P [x] @ ys' = ys"
      using Cons.prems by (cases ys) (auto split: if_splits)
    then obtain ys' where y: "filter P xs = ys' @ zs" "filter P [x] @ ys' = ys" by blast
    from Cons.IH[OF y(1)] obtain us vs where
      "xs = us @ vs" "filter P us = ys'" "filter P vs = zs" by blast
    then have "x # xs = (x # us) @ vs \<and> filter P (x # us) = ys \<and> filter P vs = zs"
      using y(2) by auto
    then show ?thesis by blast
  qed
qed

lemma min_of_filter:
  assumes "py_min_default key (filter P rs) = Some s"
  shows "P s \<and> (\<exists>pre post. rs = pre @ s # post \<and>
            (\<forall>r\<in>set pre. P r \<longrightarrow> key s < key r) \<and>
            (\<forall>r\<in>set post. P r \<longrightarrow> key s \<le> key r))"
proof -
  from py_min_default_Some[OF assms] obtain pre' post' where
    f: "filter P rs = pre' @ s # post'" and
    lt: "\<forall>y\<in>set pre'. key s < key y" and le: "\<forall>y\<in>set post'. key s \<le> key y"
    by blast
  from f obtain us vs where
    rs: "rs = us @ vs" and us: "filter P us = pre'" and vs: "filter P vs = s # post'"
    by (auto dest!: filter_eq_appendD)
  from vs obtain us' vs' where
    vs': "vs = us' @ s # vs'" and no: "\<forall>u\<in>set us'. \<not> P u" and Ps: "P s"
    and post': "post' = filter P vs'"
    by (auto simp: filter_eq_Cons_iff)
  have "rs = (us @ us') @ s # vs'"
    by (simp add: rs vs')
  moreover have "\<forall>r\<in>set (us @ us'). P r \<longrightarrow> key s < key r"
    using lt us no by auto
  moreover have "\<forall>r\<in>set vs'. P r \<longrightarrow> key s \<le> key r"
    using le post' by auto
  ultimately show ?thesis
    using Ps by blast
qed

text \<open>
  C7.  For every list of records (with string directions) the analytics computation
  returns normally.  The shortest call is \<open>None\<close> exactly when no record has a positive
  length; otherwise it is a record of positive length, at a position of the list such
  that every positive-length record before it is strictly longer and every
  positive-length record after it is at least as long (the least positive length, the
  first record that has it).  On a non-empty list the longest call is a record at a
  position such that every record before it is strictly shorter and every record after
  it is at most as long.
\<close>

theorem longest_shortest_call:
  assumes "\<forall>r\<in>set rs. direction r \<noteq> None"
  shows "\<exists>a. calculate_analytics L rs = Inr a \<and>
     (shortest_call a = None \<longleftrightarrow> (\<forall>r\<in>set rs. length_of_call r \<le> 0)) \<and>
     (\<forall>s. shortest_call a = Some s \<longrightarrow>
        0 < length_of_call s \<and>
        (\<exists>pre post. rs = pre @ s # post \<and>
           (\<forall>r\<in>set pre. 0 < length_of_call r \<longrightarrow> length_of_call s < length_of_call r) \<and>
           (\<forall>r\<in>set post. 0 < length_of_call r \<longrightarrow> length_of_call s \<le> length_of_call r))) \<and>
     (rs \<noteq> [] \<longrightarrow>
        (\<exists>l pre post. longest_call a = Some l \<and> rs = pre @ l # post \<and>
           (\<forall>r\<in>set pre. length_of_call r < length_of_call l) \<and>
           (\<forall>r\<in>set post. length_of_call r \<le> length_of_call l)))"
proof (cases "rs = []")
  case True
  then show ?thesis by (simp add: calculate_analytics_def)
next
  case False
  let ?P = "\<lambda>r. 0 < length_of_call r"
  define a where "a = (case calculate_analytics L rs of Inr a \<Rightarrow> a)"
  have a: "calculate_analytics L rs = Inr a"
    using False by (simp add: a_def calculate_analytics_def count_incoming_strings[OF assms])
  have sh: "shortest_call a = py_min_default length_of_call (filter ?P rs)"
    and lo: "longest_call a = py_max length_of_call rs"
    using False by (simp_all add: a_def calculate_analytics_def count_incoming_strings[OF assms])
  have 1: "shortest_call a = None \<longleftrightarrow> (\<forall>r\<in>set rs. length_of_call r \<le> 0)"
    by (auto simp: sh py_min_default_None filter_empty_conv not_less)
  have 2: "0 < length_of_call s \<and>
        (\<exists>pre post. rs = pre @ s # post \<and>
           (\<forall>r\<in>set pre. 0 < length_of_call r \<longrightarrow> length_of_call s < length_of_call r) \<and>
           (\<forall>r\<in>set post. 0 < length_of_call r \<longrightarrow> length_of_call s \<le> length_of_call r))"
    if "shortest_call a = Some s" for s
    using min_of_filter[of length_of_call ?P rs s] that by (simp add: sh)
  have 3: "\<exists>l pre post. longest_call a = Some l \<and> rs = pre @ l # post \<and>
           (\<forall>r\<in>set pre. length_of_call r < length_of_call l) \<and>
           (\<forall>r\<in>set post. length_of_call r \<le> length_of_call l)"
    using py_max_Some[OF False, of length_of_call] by (simp add: lo)
  show ?thesis
  proof (intro exI[of _ a] conjI allI impI)
    show "calculate_analytics L rs = Inr a" by (rule a)
    show "shortest_call a = None \<longleftrightarrow> (\<forall>r\<in>set rs. length_of_call r \<le> 0)" by (rule 1)
    show "0 < length_of_call s" if "shortest_call a = Some s" for s
      using 2[OF that] by (rule conjunct1)
    show "\<exists>pre post. rs = pre @ s # post \<and>
           (\<forall>r\<in>set pre. 0 < length_of_call r \<longrightarrow> length_of_call s < length_of_call r) \<and>
           (\<forall>r\<in>set post. 0 < length_of_call r \<longrightarrow> length_of_call s \<le> length_of_call r)"
      if "shortest_call a = Some s" for s
      using 2[OF that] by (rule conjunct2)
    show "\<exists>l pre post. longest_call a = Some l \<and> rs = pre @ l # post \<and>
           (\<forall>r\<in>set pre. length_of_call r < length_of_call l) \<and>
           (\<forall>r\<in>set post. length_of_call r \<le> length_of_call l)"
      by (rule 3)
  qed
qed

theorem longest_shortest_call_witness:
  "list_all (\<lambda>r. direction r \<noteq> None) two_calls \<and> two_calls \<noteq> [] \<and>
   (\<exists>a. calculate_analytics (example_lib []) two_calls = Inr a \<and>
      shortest_call a = Some (example_record ''outgoing'' ''5559876543'' 45 []) \<and>
      0 < length_of_call (example_record ''outgoing'' ''5559876543'' 45 []) \<and>
      longest_call a = Some (example_record ''outgoing'' ''5559876543'' 45 []))"
  using longest_shortest_call[of two_calls "example_lib []"]
  by (simp add: two_calls_def example_record_def calculate_analytics_def py_min_default_def
      py_max_def)

subsection \<open>Most frequent numbers\<close>

lemma set_first_seen: "set (first_seen xs) = set xs"
  by (induction xs) auto

lemma distinct_first_seen: "distinct (first_seen xs)"
  by (induction xs) (auto simp: set_first_seen)

lemma keys_dict_incr:
  "map fst (dict_incr d k) = (if k \<in> fst ` set d then map fst d else map fst d @ [k])"
  by (simp add: dict_incr_def dict_set_def update_keys)

lemma keys_tally:
  "map fst (foldl dict_incr d ks) =
     map fst d @ filter (\<lambda>k. k \<notin> fst ` set d) (first_seen ks)"
proof (induction ks arbitrary: d)
  case Nil
  show ?case by simp
next
  case (Cons k ks)
  have "fst ` set (dict_incr d k) = insert k (fst ` set d)"
    using keys_dict_incr[of d k, THEN arg_cong, of set] by (auto simp: image_iff)
  then show ?case
    by (auto simp: Cons.IH keys_dict_incr intro!: filter_cong)
qed

lemma distinct_tally:
  "distinct (map fst d) \<Longrightarrow> distinct (map fst (foldl dict_incr d ks))"
  by (induction ks arbitrary: d) (simp_all add: dict_incr_def dict_set_def distinct_update)

lemma map_of_dict_incr:
  "map_of (dict_incr d k) = (map_of d)(k \<mapsto> dict_get d k 0 + 1)"
  by (simp add: dict_incr_def dict_set_def update_conv')

lemma value_tally:
  "dict_get (foldl dict_incr d ks) k 0 = dict_get d k 0 + int (count_list ks k)"
proof (induction ks arbitrary: d)
  case Nil
  show ?case by simp
next
  case (Cons k' ks)
  have "dict_get (dict_incr d k') k 0 = dict_get d k 0 + (if k' = k then 1 else 0)"
    by (simp add: dict_get_def map_of_dict_incr)
  then show ?case by (simp add: Cons.IH)
qed

lemma alist_by_keys:
  "distinct (map fst d) \<Longrightarrow> d = map (\<lambda>k. (k, dict_get d k dflt)) (map fst d)"
proof (induction d)
  case Nil
  show ?case by simp
next
  case (Cons p d)
  obtain k v where p: "p = (k, v)" by (cases p)
  from Cons.prems have nk: "k \<notin> fst ` set d" and dd: "distinct (map fst d)"
    by (auto simp: p)
  have "map (\<lambda>k'. (k', dict_get (p # d) k' dflt)) (map fst d) =
        map (\<lambda>k'. (k', dict_get d k' dflt)) (map fst d)"
    using nk by (intro map_cong) (auto simp: p dict_get_def)
  with Cons.IH[OF dd] show ?case
    by (simp add: p dict_get_def)
qed

lemma number_counts_closed:
  "number_counts rs =
     map (\<lambda>n. (n, int (count_list (map normalized_number rs) n)))
       (first_seen (map normalized_number rs))"
proof -
  let ?ks = "map normalized_number rs"
  have nc: "number_counts rs = foldl dict_incr [] ?ks"
    by (simp add: number_counts_def foldl_map)
  have keys: "map fst (number_counts rs) = first_seen ?ks"
    by (simp add: nc keys_tally)
  have "distinct (map fst (number_counts rs))"
    by (simp add: nc distinct_tally)
  from alist_by_keys[OF this, of 0]
  have "number_counts rs = map (\<lambda>k. (k, dict_get (number_counts rs) k 0)) (first_seen ?ks)"
    by (simp add: keys)
  also have "\<dots> = map (\<lambda>n. (n, int (count_list ?ks n))) (first_seen ?ks)"
    using value_tally[of "[]" ?ks] by (simp add: nc dict_get_def)
  finally show ?thesis .
qed

lemma mset_sorted_reverse: "mset (sorted_reverse key xs) = mset xs"
  by (simp add: sorted_reverse_def)

lemma sorted_reverse_descending:
  "sorted_wrt (\<lambda>x y. key y \<le> key x) (sorted_reverse key xs)"
proof -
  have "sorted (map key (sort_key key (rev xs)))" by simp
  then have "sorted_wrt (\<lambda>x y. key x \<le> key y) (sort_key key (rev xs))"
    by (simp add: sorted_map)
  then show ?thesis
    by (simp add: sorted_reverse_def sorted_wrt_rev)
qed

lemma sorted_reverse_stable:
  "filter (\<lambda>x. key x = c) (sorted_reverse key xs) = filter (\<lambda>x. key x = c) xs"
  by (simp add: sorted_reverse_def rev_filter[symmetric] sort_key_stable)

lemma five_numbers:
  assumes "map normalized_number rs = [A, A, B, B, C]" "distinct [A, B, C]"
  shows "take 10 (sorted_reverse snd (number_counts rs)) = [(A, 2), (B, 2), (C, 1)]"
  using assms by (auto simp: number_counts_closed sorted_reverse_def)

text \<open>
  C2.  For every list of records (with string directions) the analytics computation
  returns normally, and its most-frequent list is the first 10 entries of a list \<open>S\<close>
  that is a rearrangement of the tally (each distinct normalized number with its
  number of records, in the order of first occurrence), is in descending order of the
  counts, and keeps the entries of equal count in their order in the tally.  For
  records with the numbers A, A, B, B, C the list is (A, 2), (B, 2), (C, 1).
\<close>

theorem most_frequent_numbers_ranking:
  assumes "\<forall>r\<in>set rs. direction r \<noteq> None"
  shows "\<exists>a S. calculate_analytics L rs = Inr a \<and>
     most_frequent_numbers a = take 10 S \<and>
     mset S = mset (map (\<lambda>n. (n, int (count_list (map normalized_number rs) n)))
                 (first_seen (map normalized_number rs))) \<and>
     sorted_wrt (\<lambda>p q. snd q \<le> snd p) S \<and>
     (\<forall>c. filter (\<lambda>p. snd p = c) S =
          filter (\<lambda>p. snd p = c)
            (map (\<lambda>n. (n, int (count_list (map normalized_number rs) n)))
               (first_seen (map normalized_number rs)))) \<and>
     (\<forall>A B C. map normalized_number rs = [A, A, B, B, C] \<and> distinct [A, B, C] \<longrightarrow>
        most_frequent_numbers a = [(A, 2), (B, 2), (C, 1)])"
proof -
  let ?T = "map (\<lambda>n. (n, int (count_list (map normalized_number rs) n)))
                 (first_seen (map normalized_number rs))"
  let ?S = "sorted_reverse snd ?T"
  define a where "a = (case calculate_analytics L rs of Inr a \<Rightarrow> a)"
  have a: "calculate_analytics L rs = Inr a"
    by (simp add: a_def calculate_analytics_def count_incoming_strings[OF assms])
  have mf: "most_frequent_numbers a = take 10 (sorted_reverse snd (number_counts rs))"
    by (cases "rs = []")
      (simp_all add: a_def calculate_analytics_def count_incoming_strings[OF assms]
        number_counts_def sorted_reverse_def)
  have "most_frequent_numbers a = take 10 ?S"
    by (simp add: mf number_counts_closed)
  moreover have "mset ?S = mset ?T"
    by (rule mset_sorted_reverse)
  moreover have "sorted_wrt (\<lambda>p q. snd q \<le> snd p) ?S"
    by (rule sorted_reverse_descending)
  moreover have "\<forall>c. filter (\<lambda>p. snd p = c) ?S = filter (\<lambda>p. snd p = c) ?T"
    by (simp add: sorted_reverse_stable)
  moreover have "\<forall>A B C. map normalized_number rs = [A, A, B, B, C] \<and> distinct [A, B, C] \<longrightarrow>
        most_frequent_numbers a = [(A, 2), (B, 2), (C, 1)]"
    unfolding mf by (intro allI impI, elim conjE) (rule five_numbers)
  ultimately show ?thesis
    using a by (intro exI[of _ a] exI[of _ ?S]) simp
qed

theorem most_frequent_numbers_ranking_witness:
  "list_all (\<lambda>r. direction r \<noteq> None) five_calls \<and>
   map normalized_number five_calls =
     [lit ''5551111111'', lit ''5551111111'', lit ''5552222222'', lit ''5552222222'',
      lit ''5553333333''] \<and>
   distinct [lit ''5551111111'', lit ''5552222222'', lit ''5553333333''] \<and>
   (\<exists>a. calculate_analytics (example_lib []) five_calls = Inr a \<and>
      most_frequent_numbers a =
        [(lit ''5551111111'', 2), (lit ''5552222222'', 2), (lit ''5553333333'', 1)])"
proof -
  have d: "\<forall>r\<in>set five_calls. direction r \<noteq> None"
    by (simp add: five_calls_def example_record_def)
  have n: "map normalized_number five_calls =
     [lit ''5551111111'', lit ''5551111111'', lit ''5552222222'', lit ''5552222222'',
      lit ''5553333333'']"
    by (simp add: five_calls_def example_record_def normalize_eval)
  have ds: "distinct [lit ''5551111111'', lit ''5552222222'', lit ''5553333333'']"
    by (simp add: lit_simps)
  from most_frequent_numbers_ranking[OF d, of "example_lib []"]
  obtain a where a: "calculate_analytics (example_lib []) five_calls = Inr a"
    and ex: "\<forall>A B C. map normalized_number five_calls = [A, A, B, B, C] \<and> distinct [A, B, C] \<longrightarrow>
        most_frequent_numbers a = [(A, 2), (B, 2), (C, 1)]"
    by blast
  from ex[rule_format, of "lit ''5551111111''" "lit ''5552222222''" "lit ''5553333333''"] n ds
  have "most_frequent_numbers a =
        [(lit ''5551111111'', 2), (lit ''5552222222'', 2), (lit ''5553333333'', 1)]"
    by simp
  with a have ex2: "\<exists>a. calculate_analytics (example_lib []) five_calls = Inr a \<and>
      most_frequent_numbers a =
        [(lit ''5551111111'', 2), (lit ''5552222222'', 2), (lit ''5553333333'', 1)]"
    by blast
  have d': "list_all (\<lambda>r. direction r \<noteq> None) five_calls"
    using d by (simp only: list_all_iff)
  show ?thesis
    by (intro conjI) (rule d', rule n, rule ds, rule ex2)
qed

subsection \<open>Common contacts\<close>

lemma keys_group_step:
  "map fst (group_step d r) =
     (if target_number r = [] \<or> target_number r \<in> fst ` set d then map fst d
      else map fst d @ [target_number r])"
  by (auto simp: group_step_def dict_set_def update_keys Let_def map_of_eq_None_iff)

lemma dict_get_group_step:
  "dict_get (group_step d r) t {} =
     dict_get d t {} \<union> (if target_number r = t \<and> t \<noteq> [] then {normalized_number r} else {})"
  by (auto simp: group_step_def dict_set_def dict_get_def update_conv' Let_def)

lemma distinct_group_step:
  "distinct (map fst d) \<Longrightarrow> distinct (map fst (group_step d r))"
  by (simp add: group_step_def dict_set_def distinct_update Let_def)

lemma keys_groups:
  "map fst (foldl group_step d rs) =
     map fst d @ filter (\<lambda>t. t \<notin> fst ` set d) (first_seen (targets_of rs))"
proof (induction rs arbitrary: d)
  case Nil
  show ?case by (simp add: targets_of_def)
next
  case (Cons r rs)
  have s: "fst ` set (group_step d r) =
      (if target_number r = [] then fst ` set d else insert (target_number r) (fst ` set d))"
    using keys_group_step[of d r, THEN arg_cong, of set] by (auto simp: image_iff)
  have t: "targets_of (r # rs) =
      (if target_number r = [] then targets_of rs else target_number r # targets_of rs)"
    by (simp add: targets_of_def)
  show ?case
    by (auto simp: Cons.IH keys_group_step s t intro!: filter_cong)
qed

lemma distinct_groups:
  "distinct (map fst d) \<Longrightarrow> distinct (map fst (foldl group_step d rs))"
  by (induction rs arbitrary: d) (simp_all add: distinct_group_step)

lemma dict_get_groups:
  "dict_get (foldl group_step d rs) t {} =
     dict_get d t {} \<union> (if t \<noteq> [] then dialed rs t else {})"
proof (induction rs arbitrary: d)
  case Nil
  show ?case by (simp add: dialed_def)
next
  case (Cons r rs)
  show ?case
    by (auto simp: Cons.IH dict_get_group_step dialed_def)
qed

lemma target_groups_closed:
  "target_groups rs = map (\<lambda>t. (t, dialed rs t)) (first_seen (targets_of rs))"
proof -
  have keys: "map fst (target_groups rs) = first_seen (targets_of rs)"
    by (simp add: target_groups_def keys_groups)
  have "distinct (map fst (target_groups rs))"
    by (simp add: target_groups_def distinct_groups)
  from alist_by_keys[OF this, of "{}"]
  have "target_groups rs =
      map (\<lambda>t. (t, dict_get (target_groups rs) t {})) (first_seen (targets_of rs))"
    by (simp add: keys)
  also have "\<dots> = map (\<lambda>t. (t, dialed rs t)) (first_seen (targets_of rs))"
    using dict_get_groups[of "[]" rs]
    by (auto simp: target_groups_def dict_get_def set_first_seen targets_of_def)
  finally show ?thesis .
qed

lemma foldl_union: "foldl (\<lambda>s numbers. s \<union> numbers) A xs = A \<union> \<Union> (set xs)"
  by (induction xs arbitrary: A) auto

lemma keys_of_filtered_groups:
  "map fst (filter (\<lambda>(t, ns). n \<in> ns) (map (\<lambda>t. (t, f t)) ts)) = filter (\<lambda>t. n \<in> f t) ts"
  by (induction ts) auto

lemma concat_map_if:
  "concat (map (\<lambda>n. if P n then [f n] else []) xs) = map f (filter P xs)"
  by (induction xs) auto

lemma find_common_contacts_closed:
  "find_common_contacts L rs =
    (if 1 < length (first_seen (targets_of rs)) then
       Some (sorted_reverse cc_count
         (map (contact_of rs)
            (filter (\<lambda>n. 1 < length (filter (\<lambda>t. n \<in> dialed rs t) (first_seen (targets_of rs))))
               (set_iter L (\<Union>t\<in>set (targets_of rs). dialed rs t)))))
     else None)"
proof -
  have u: "\<Union> (set (map snd (map (\<lambda>t. (t, dialed rs t)) (first_seen (targets_of rs))))) =
      (\<Union>t\<in>set (targets_of rs). dialed rs t)"
    by (auto simp: set_first_seen)
  show ?thesis
    unfolding find_common_contacts_def Let_def target_groups_closed keys_of_filtered_groups
      foldl_union u
    by (simp add: concat_map_if contact_of_def[abs_def])
qed

lemma length_targets_filter:
  "length (filter P (first_seen (targets_of rs))) = card {t \<in> set (targets_of rs). P t}"
proof -
  have "{t \<in> set (targets_of rs). P t} = {x. P x} \<inter> set (first_seen (targets_of rs))"
    by (auto simp: set_first_seen)
  then show ?thesis
    by (simp add: distinct_length_filter distinct_first_seen)
qed

lemma finite_dialed_union: "finite (\<Union>t\<in>set (targets_of rs). dialed rs t)"
  by (simp add: dialed_def)

text \<open>
  C3, as the code has it.  When the records have at least two distinct non-empty target
  numbers, and whatever the order in which the set of all dialed numbers is iterated,
  the common-contact list has one entry for exactly the numbers dialed under at least
  two distinct targets; each entry carries those targets, in the order of their first
  record, and their number; the list is in descending order of that count, and the
  entries of equal count stay in the iteration order of the set.
\<close>

theorem common_contacts_characterisation:
  assumes ok: "set_iter_ok L" and two: "2 \<le> card (set (targets_of rs))"
  shows "\<exists>cs. find_common_contacts L rs = Some cs \<and>
      (\<forall>n. n \<in> set (map cc_number cs) \<longleftrightarrow>
           2 \<le> card {t \<in> set (targets_of rs). n \<in> dialed rs t}) \<and>
      distinct (map cc_number cs) \<and>
      (\<forall>c\<in>set cs.
         cc_target_numbers c =
           filter (\<lambda>t. cc_number c \<in> dialed rs t) (first_seen (targets_of rs)) \<and>
         cc_count c = int (card {t \<in> set (targets_of rs). cc_number c \<in> dialed rs t})) \<and>
      sorted_wrt (\<lambda>c c'. cc_count c' \<le> cc_count c) cs \<and>
      (\<forall>k. map cc_number (filter (\<lambda>c. cc_count c = k) cs) =
           filter (\<lambda>n. 2 \<le> card {t \<in> set (targets_of rs). n \<in> dialed rs t} \<and>
                       int (card {t \<in> set (targets_of rs). n \<in> dialed rs t}) = k)
             (set_iter L (\<Union>t\<in>set (targets_of rs). dialed rs t)))"
proof -
  let ?all = "\<Union>t\<in>set (targets_of rs). dialed rs t"
  let ?cnt = "\<lambda>n. card {t \<in> set (targets_of rs). n \<in> dialed rs t}"
  let ?it = "set_iter L ?all"
  let ?found = "map (contact_of rs) (filter (\<lambda>n. 2 \<le> ?cnt n) ?it)"
  let ?cs = "sorted_reverse cc_count ?found"
  have len: "length (first_seen (targets_of rs)) = card (set (targets_of rs))"
    using distinct_card[OF distinct_first_seen, of "targets_of rs"] by (simp add: set_first_seen)
  have it: "set ?it = ?all" "distinct ?it"
    using ok finite_dialed_union[of rs] by (auto simp: set_iter_ok_def)
  have less: "Suc 0 < m \<longleftrightarrow> 2 \<le> m" for m :: nat by auto
  have res: "find_common_contacts L rs = Some ?cs"
    using two by (simp add: find_common_contacts_closed len length_targets_filter less)
  have num: "map cc_number ?found = filter (\<lambda>n. 2 \<le> ?cnt n) ?it"
    by (simp add: contact_of_def comp_def)
  have ms: "mset ?cs = mset ?found"
    by (rule mset_sorted_reverse)
  have st: "set ?cs = set ?found"
    using ms by (rule mset_eq_setD)
  have in_all: "n \<in> ?all" if "2 \<le> ?cnt n" for n
  proof -
    have "{t \<in> set (targets_of rs). n \<in> dialed rs t} \<noteq> {}"
    proof
      assume "{t \<in> set (targets_of rs). n \<in> dialed rs t} = {}"
      then have "card {t \<in> set (targets_of rs). n \<in> dialed rs t} = 0"
        by (simp only: card.empty)
      with that show False by linarith
    qed
    then show ?thesis by auto
  qed
  have 1: "\<forall>n. n \<in> set (map cc_number ?cs) \<longleftrightarrow> 2 \<le> ?cnt n"
  proof
    fix n
    have "set (map cc_number ?cs) = set (map cc_number ?found)"
      by (simp only: set_map st)
    also have "\<dots> = {n \<in> ?all. 2 \<le> ?cnt n}"
      unfolding num using it(1) by auto
    finally show "n \<in> set (map cc_number ?cs) \<longleftrightarrow> 2 \<le> ?cnt n"
      using in_all[of n] by auto
  qed
  have "mset (map cc_number ?cs) = mset (map cc_number ?found)"
    by (simp only: mset_map ms)
  then have "distinct (map cc_number ?cs) \<longleftrightarrow> distinct (map cc_number ?found)"
    by (rule mset_eq_imp_distinct_iff)
  then have 2: "distinct (map cc_number ?cs)"
    unfolding num using it(2) by simp
  have 3: "\<forall>c\<in>set ?cs.
         cc_target_numbers c =
           filter (\<lambda>t. cc_number c \<in> dialed rs t) (first_seen (targets_of rs)) \<and>
         cc_count c = int (?cnt (cc_number c))"
    unfolding st by (auto simp: contact_of_def length_targets_filter)
  have 4: "sorted_wrt (\<lambda>c c'. cc_count c' \<le> cc_count c) ?cs"
    by (rule sorted_reverse_descending)
  have 5: "\<forall>k. map cc_number (filter (\<lambda>c. cc_count c = k) ?cs) =
           filter (\<lambda>n. 2 \<le> ?cnt n \<and> int (?cnt n) = k) ?it"
  proof
    fix k
    have "map cc_number (filter (\<lambda>c. cc_count c = k) ?cs) =
        map cc_number (filter (\<lambda>c. cc_count c = k) ?found)"
      by (simp only: sorted_reverse_stable)
    also have "\<dots> = filter (\<lambda>n. 2 \<le> ?cnt n \<and> int (?cnt n) = k) ?it"
      by (simp add: filter_map comp_def contact_of_def length_targets_filter conj_commute)
    finally show "map cc_number (filter (\<lambda>c. cc_count c = k) ?cs) =
           filter (\<lambda>n. 2 \<le> ?cnt n \<and> int (?cnt n) = k) ?it" .
  qed
  show ?thesis
    by (intro exI[of _ ?cs] conjI) (rule res, rule 1, rule 2, rule 3, rule 4, rule 5)
qed

lemma set_iter_ok_sorted: "set_iter_ok (example_lib files)"
  by (simp add: set_iter_ok_def example_lib_def)

lemma set_iter_ok_rev: "set_iter_ok ((example_lib files)\<lparr>set_iter := rev \<circ> sorted_list_of_set\<rparr>)"
  by (simp add: set_iter_ok_def)

lemma target_groups_contact_calls: "target_groups contact_calls =
   [(lit ''1111111111'', {lit ''5550000002'', lit ''5550000001''}),
    (lit ''2222222222'', {lit ''5550000003'', lit ''5550000002''})]"
  by (simp add: contact_calls_def example_record_def normalize_eval target_groups_def
      group_step_def dict_set_def dict_get_def)

lemma find_common_contacts_contact_calls: "find_common_contacts (example_lib []) contact_calls =
     Some [\<lparr> cc_number = lit ''5550000002'',
             cc_target_numbers = [lit ''1111111111'', lit ''2222222222''],
             cc_count = 2 \<rparr>]"
  unfolding find_common_contacts_def target_groups_contact_calls Let_def
  by (simp add: example_lib_def lit_simps sorted_reverse_def)

lemma target_groups_tied_calls: "target_groups tied_calls =
   [(lit ''1111111111'', {lit ''5550000002'', lit ''5550000001''}),
    (lit ''2222222222'', {lit ''5550000002'', lit ''5550000001''})]"
  by (simp add: tied_calls_def example_record_def normalize_eval target_groups_def
      group_step_def dict_set_def dict_get_def)

theorem common_contacts_characterisation_witness:
  "set_iter_ok (example_lib []) \<and> 2 \<le> card (set (targets_of contact_calls)) \<and>
   find_common_contacts (example_lib []) contact_calls =
     Some [\<lparr> cc_number = lit ''5550000002'',
             cc_target_numbers = [lit ''1111111111'', lit ''2222222222''],
             cc_count = 2 \<rparr>]"
proof -
  have ok: "set_iter_ok (example_lib [])"
    by (rule set_iter_ok_sorted)
  have two: "2 \<le> card (set (targets_of contact_calls))"
    by (simp add: targets_of_def contact_calls_def example_record_def normalize_eval)
  from common_contacts_characterisation[OF ok two]
  obtain cs where cs: "find_common_contacts (example_lib []) contact_calls = Some cs"
    by (elim exE conjE)
  then have "cs = [\<lparr> cc_number = lit ''5550000002'',
             cc_target_numbers = [lit ''1111111111'', lit ''2222222222''],
             cc_count = 2 \<rparr>]"
    by (simp only: find_common_contacts_contact_calls option.inject)
  with cs ok two show ?thesis by (simp only: simp_thms)
qed

text \<open>
  C3 as stated fails in its last part: the code sorts by the count only.  With two
  contacts of equal count and a set iterated in descending order, the list has
  \<open>5550000002\<close> before \<open>5550000001\<close>.
\<close>

theorem common_contacts_ties_not_lexicographic:
  "set_iter_ok ((example_lib [])\<lparr>set_iter := rev \<circ> sorted_list_of_set\<rparr>) \<and>
   2 \<le> card (set (targets_of tied_calls)) \<and>
   find_common_contacts ((example_lib [])\<lparr>set_iter := rev \<circ> sorted_list_of_set\<rparr>) tied_calls =
     Some [\<lparr> cc_number = lit ''5550000002'',
             cc_target_numbers = [lit ''1111111111'', lit ''2222222222''],
             cc_count = 2 \<rparr>,
           \<lparr> cc_number = lit ''5550000001'',
             cc_target_numbers = [lit ''1111111111'', lit ''2222222222''],
             cc_count = 2 \<rparr>] \<and>
   lit ''5550000001'' < lit ''5550000002''"
proof -
  have "2 \<le> card (set (targets_of tied_calls))"
    by (simp add: targets_of_def tied_calls_def example_record_def normalize_eval)
  moreover have "find_common_contacts ((example_lib [])\<lparr>set_iter := rev \<circ> sorted_list_of_set\<rparr>)
      tied_calls =
     Some [\<lparr> cc_number = lit ''5550000002'',
             cc_target_numbers = [lit ''1111111111'', lit ''2222222222''],
             cc_count = 2 \<rparr>,
           \<lparr> cc_number = lit ''5550000001'',
             cc_target_numbers = [lit ''1111111111'', lit ''2222222222''],
             cc_count = 2 \<rparr>]"
    unfolding find_common_contacts_def target_groups_tied_calls Let_def
    by (simp add: lit_simps sorted_reverse_def)
  moreover have "lit ''5550000001'' < lit ''5550000002''"
    by (simp add: lit_simps)
  ultimately show ?thesis
    using set_iter_ok_rev[of "[]"] by (simp only: simp_thms)
qed

section \<open>Properties of parsing and of the processing of files\<close>

lemmas parse_eval =
  parse_file_def example_lib_def example_files_def example_result_def leaf_def
  findall_descendants_def find_descendant_def find_child_def process_result_def
  CallRecord_init_def parse_time_def replace_Z_def lit_simps example_record_def
  ascii_digit_def example_time_def

lemma parse_file_a: "parse_file (example_lib example_files) (lit ''a.xml'') =
   Inr [example_record ''incoming'' ''5551111111'' 10 []]"
  by (simp add: parse_eval)

lemma parse_file_b: "parse_file (example_lib example_files) (lit ''b.xml'') = Inl (Failed_to_parse XMLParseError)"
  by (simp add: parse_eval)

lemma parse_file_c: "parse_file (example_lib example_files) (lit ''c.xml'') =
   Inr [(example_record ''outgoing'' ''5552222222'' 20 [])\<lparr>source_file := lit ''c.xml''\<rparr>]"
  by (simp add: parse_eval)

lemma parse_file_e: "parse_file (example_lib example_files) (lit ''e.xml'') =
   Inr [(example_record ''incoming'' ''5551111111'' 10 [])\<lparr>direction := None, source_file := lit ''e.xml''\<rparr>]"
  by (simp add: parse_eval)

text \<open>
  A result without one of the five children and a result whose call length is not an
  integer are skipped, and the parse continues.
\<close>

lemma parse_file_f: "parse_file (example_lib example_files) (lit ''f.xml'') =
   Inr [(example_record ''outgoing'' ''5552222222'' 20 [])\<lparr>source_file := lit ''f.xml''\<rparr>]"
  by (simp add: parse_eval)

text \<open>
  As long as no result raises anything but \<open>AttributeError\<close> or \<open>ValueError\<close>, the loop
  returns one record for each result that raises nothing, in document order.
\<close>

lemma results_loop_closed:
  assumes "\<forall>e\<in>set results. \<forall>x. process_result L tn sf e = Inl x \<longrightarrow> x = AttributeError \<or> x = ValueError"
  shows "results_loop L tn sf results acc =
     Inr (acc @ concat (map (\<lambda>e. case process_result L tn sf e of Inr r \<Rightarrow> [r] | Inl x \<Rightarrow> []) results))"
  using assms by (induction results arbitrary: acc) (auto split: sum.splits)

text \<open>
  C6 fails on the code.  In \<open>d.xml\<close> the first result has all five children, but its
  \<open>lengthOfCall\<close> element is empty: its text is \<open>None\<close>, \<open>int(None)\<close> raises \<open>TypeError\<close>,
  which the \<open>except (AttributeError, ValueError)\<close> of the loop does not catch, so the
  whole parse fails and the second, complete result is lost.
\<close>

theorem parse_file_empty_length_aborts:
  "parse_file (example_lib example_files) (lit ''d.xml'') = Inl (Failed_to_parse TypeError)"
  by (simp add: parse_eval)

lemma files_loop_closed:
  "files_loop L paths acc done =
     (acc @ concat (map (\<lambda>p. case parse_file L p of Inr recs \<Rightarrow> recs | Inl e \<Rightarrow> []) paths),
      done @ filter (\<lambda>p. \<not> isl (parse_file L p)) paths)"
  by (induction paths arbitrary: acc "done") (auto split: sum.splits)

text \<open>
  C4.  For every list of paths the loop over the files ends with the records of the
  files that parsed, in the order of the paths, and with the list of those paths; a
  file whose parse fails adds nothing to either.  When no record was collected, the
  user interface gets the error \<open>No valid records found in any files\<close>.  Otherwise it
  gets the records, their analytics and the processed paths, or, when the analytics
  computation raises, the error with the text of that exception; so a finished
  signal never carries an empty record list.
\<close>

theorem process_files_thread_partial_failure:
  "\<exists>all_records processed_files.
     files_loop L file_paths [] [] = (all_records, processed_files) \<and>
     all_records =
       concat (map (\<lambda>p. case parse_file L p of Inr recs \<Rightarrow> recs | Inl e \<Rightarrow> []) file_paths) \<and>
     processed_files = filter (\<lambda>p. \<not> isl (parse_file L p)) file_paths \<and>
     (all_records = [] \<longrightarrow>
        process_files_thread L file_paths =
          On_processing_error (Text (lit ''No valid records found in any files''))) \<and>
     (\<forall>a. all_records \<noteq> [] \<and> calculate_analytics L all_records = Inr a \<longrightarrow>
        process_files_thread L file_paths =
          On_processing_finished all_records a processed_files) \<and>
     (\<forall>e. all_records \<noteq> [] \<and> calculate_analytics L all_records = Inl e \<longrightarrow>
        process_files_thread L file_paths = On_processing_error (Str_of e)) \<and>
     (\<forall>recs a ps. process_files_thread L file_paths = On_processing_finished recs a ps \<longrightarrow>
        recs = all_records \<and> ps = processed_files \<and> recs \<noteq> [])"
  by (auto simp: files_loop_closed process_files_thread_def split: sum.splits)

theorem process_files_thread_partial_failure_witness:
  "(\<exists>a. process_files_thread (example_lib example_files)
          [lit ''a.xml'', lit ''b.xml'', lit ''c.xml''] =
        On_processing_finished
          [example_record ''incoming'' ''5551111111'' 10 [],
           (example_record ''outgoing'' ''5552222222'' 20 [])\<lparr>source_file := lit ''c.xml''\<rparr>]
          a [lit ''a.xml'', lit ''c.xml'']) \<and>
   process_files_thread (example_lib example_files) [lit ''b.xml''] =
     On_processing_error (Text (lit ''No valid records found in any files'')) \<and>
   process_files_thread (example_lib example_files) [lit ''e.xml''] =
     On_processing_error (Str_of AttributeError)"
proof -
  let ?L = "example_lib example_files"
  let ?ra = "example_record ''incoming'' ''5551111111'' 10 []"
  let ?rc = "(example_record ''outgoing'' ''5552222222'' 20 [])\<lparr>source_file := lit ''c.xml''\<rparr>"
  let ?re = "(example_record ''incoming'' ''5551111111'' 10 [])
               \<lparr>direction := None, source_file := lit ''e.xml''\<rparr>"
  have ne: "lit ''a.xml'' \<noteq> lit ''b.xml''" "lit ''b.xml'' \<noteq> lit ''c.xml''"
    by (simp_all add: lit_simps)
  obtain a where a: "calculate_analytics ?L [?ra, ?rc] = Inr a"
    using calculate_analytics_total[of "[?ra, ?rc]" ?L] by (auto simp: example_record_def)
  have e: "calculate_analytics ?L [?re] = Inl AttributeError"
    by (rule calculate_analytics_None) simp
  have 1: "process_files_thread ?L [lit ''a.xml'', lit ''b.xml'', lit ''c.xml''] =
      On_processing_finished [?ra, ?rc] a [lit ''a.xml'', lit ''c.xml'']"
  proof -
    from process_files_thread_partial_failure[of ?L "[lit ''a.xml'', lit ''b.xml'', lit ''c.xml'']"]
    obtain ar pf where
      ar: "ar = concat (map (\<lambda>p. case parse_file ?L p of Inr recs \<Rightarrow> recs | Inl e \<Rightarrow> [])
                 [lit ''a.xml'', lit ''b.xml'', lit ''c.xml''])"
      and pf: "pf = filter (\<lambda>p. \<not> isl (parse_file ?L p)) [lit ''a.xml'', lit ''b.xml'', lit ''c.xml'']"
      and fin: "\<forall>a. ar \<noteq> [] \<and> calculate_analytics ?L ar = Inr a \<longrightarrow>
        process_files_thread ?L [lit ''a.xml'', lit ''b.xml'', lit ''c.xml''] =
          On_processing_finished ar a pf"
      by (elim exE conjE)
    have "ar = [?ra, ?rc]" by (simp only: ar list.map parse_file_a parse_file_b parse_file_c sum.case concat.simps append.simps)
    moreover have "pf = [lit ''a.xml'', lit ''c.xml'']"
      by (simp only: pf filter.simps parse_file_a parse_file_b parse_file_c sum.disc simp_thms if_True if_False)
    ultimately show ?thesis using fin[rule_format, of a] a by simp
  qed
  have 2: "process_files_thread ?L [lit ''b.xml''] =
      On_processing_error (Text (lit ''No valid records found in any files''))"
  proof -
    from process_files_thread_partial_failure[of ?L "[lit ''b.xml'']"]
    obtain ar where
      ar: "ar = concat (map (\<lambda>p. case parse_file ?L p of Inr recs \<Rightarrow> recs | Inl e \<Rightarrow> [])
                 [lit ''b.xml''])"
      and emp: "ar = [] \<longrightarrow> process_files_thread ?L [lit ''b.xml''] =
          On_processing_error (Text (lit ''No valid records found in any files''))"
      by (elim exE conjE)
    have "ar = []" by (simp only: ar list.map parse_file_b sum.case concat.simps append.simps)
    with emp show ?thesis by (rule mp)
  qed
  have 3: "process_files_thread ?L [lit ''e.xml''] = On_processing_error (Str_of AttributeError)"
  proof -
    from process_files_thread_partial_failure[of ?L "[lit ''e.xml'']"]
    obtain ar where
      ar: "ar = concat (map (\<lambda>p. case parse_file ?L p of Inr recs \<Rightarrow> recs | Inl e \<Rightarrow> [])
                 [lit ''e.xml''])"
      and err: "\<forall>e. ar \<noteq> [] \<and> calculate_analytics ?L ar = Inl e \<longrightarrow>
          process_files_thread ?L [lit ''e.xml''] = On_processing_error (Str_of e)"
      by (elim exE conjE)
    have "ar = [?re]" by (simp only: ar list.map parse_file_e sum.case concat.simps append.simps)
    then show ?thesis using err[rule_format, of AttributeError] e by simp
  qed
  show ?thesis
    by (intro conjI exI[of _ a]) (rule 1, rule 2, rule 3)
qed

section \<open>Properties of the pass over the cells\<close>

lemma clean_cell_no_formula: "clean_cell v = VStr s \<Longrightarrow> \<not> startswith s (lit ''='')"
  by (auto simp: clean_cell_def startswith_def lit_simps split: cell_value.splits if_splits)

text \<open>
  C9.  The pass keeps the worksheets and the cells where they are.  A string cell that
  starts with \<open>=\<close> gets an apostrophe in front; every other string cell, every integer
  cell, every float cell and every empty cell is unchanged.  So in the workbook that is
  saved no string cell starts with \<open>=\<close>.
\<close>

theorem export_data_escapes_formulas:
  "length (export_data wb) = length wb \<and>
   (\<forall>i<length wb. \<forall>rc.
      (\<forall>s. (wb ! i) rc = Some (VStr s) \<longrightarrow>
         (export_data wb ! i) rc =
           Some (VStr (if startswith s (lit ''='') then lit [CHR 0x27] @ s else s))) \<and>
      (\<forall>n. (wb ! i) rc = Some (VInt n) \<longrightarrow> (export_data wb ! i) rc = Some (VInt n)) \<and>
      (\<forall>x. (wb ! i) rc = Some (VFloat x) \<longrightarrow> (export_data wb ! i) rc = Some (VFloat x)) \<and>
      ((wb ! i) rc = Some VNone \<longrightarrow> (export_data wb ! i) rc = Some VNone) \<and>
      ((wb ! i) rc = None \<longrightarrow> (export_data wb ! i) rc = None)) \<and>
   (\<forall>ws\<in>set (export_data wb). \<forall>rc s.
      ws rc = Some (VStr s) \<longrightarrow> \<not> startswith s (lit ''=''))"
proof -
  have "\<not> startswith s (lit ''='')"
    if "ws \<in> set (export_data wb)" "ws rc = Some (VStr s)" for ws rc s
  proof -
    from that obtain v where "clean_cell v = VStr s"
      by (auto simp: export_data_def)
    then show ?thesis by (rule clean_cell_no_formula)
  qed
  then show ?thesis
    by (simp add: export_data_def clean_cell_def)
qed

theorem export_data_escapes_formulas_witness:
  "(0::nat) < length [example_sheet] \<and>
   example_sheet (1, 1) = Some (VStr (lit ''=== CALLS BY DAY ==='')) \<and>
   (export_data [example_sheet] ! 0) (1, 1) = Some (VStr (lit [CHR 0x27] @ lit ''=== CALLS BY DAY ==='')) \<and>
   \<not> startswith (lit [CHR 0x27] @ lit ''=== CALLS BY DAY ==='') (lit ''='') \<and>
   example_sheet (2, 1) = Some (VStr (lit ''Total Calls'')) \<and>
   (export_data [example_sheet] ! 0) (2, 1) = Some (VStr (lit ''Total Calls'')) \<and>
   example_sheet (2, 2) = Some (VInt 5) \<and>
   (export_data [example_sheet] ! 0) (2, 2) = Some (VInt 5) \<and>
   example_sheet (3, 2) = Some (VFloat 0.75) \<and>
   (export_data [example_sheet] ! 0) (3, 2) = Some (VFloat 0.75) \<and>
   example_sheet (4, 1) = Some VNone \<and>
   (export_data [example_sheet] ! 0) (4, 1) = Some VNone \<and>
   example_sheet (5, 1) = None \<and>
   (export_data [example_sheet] ! 0) (5, 1) = None \<and>
   export_data [example_sheet] ! 0 \<in> set (export_data [example_sheet])"
  using export_data_escapes_formulas[of "[example_sheet]"]
  by (simp add: example_sheet_def export_data_def clean_cell_def startswith_def lit_simps)

end
